theory Spec2Isabelle
  imports Complex_Main "HOL-Library.Word"
begin

section \<open>Protothread state\<close>

text \<open>
  \<^verbatim>\<open>class ProtoState { int state; float time; bool yield; }\<close> of \<^verbatim>\<open>protothread.h\<close>.
  The field \<open>state\<close> is only ever assigned a line number and compared, so it is an
  \<open>int\<close>. The field \<open>time\<close> is a C float. A float is given by the real number it
  stands for (infinities and NaN aside). The one arithmetic operation on the field,
  the subtraction in \<^verbatim>\<open>PROTO_SLEEP\<close>, rounds; it is the parameter \<open>fsub\<close> of the
  functions below, and every theorem holds for every \<open>fsub\<close>, so for the subtraction of
  the machine.
\<close>

record ProtoState =
  state :: int
  time :: real
  yield :: bool

text \<open>The constructor: \<^verbatim>\<open>ProtoState(void) { state = 0; time = 0.0f; yield = false; }\<close>\<close>

definition ProtoState_init :: ProtoState where
  "ProtoState_init = \<lparr>state = 0, time = 0, yield = False\<rparr>"

section \<open>Protothread functions\<close>

text \<open>
  A protothread function is user code with the macros of \<^verbatim>\<open>protothread.h\<close> in it:
  \<^verbatim>\<open>
  bool myfunc (ProtoState* ps, void* vars)
  {
      ...            // pre_code: before PROTO_BEGIN
      PROTO_BEGIN;
      ...            // body: user statements, PROTO_YIELD, PROTO_SLEEP(t), PROTO_WAIT(c)
      PROTO_END;
      ...            // post_code: after PROTO_END
  }
  \<close>
  The body is a straight-line sequence of statements. A user statement is a function on
  the user variables \<open>'v\<close> (what \<^verbatim>\<open>vars\<close> points to); it does not touch \<^verbatim>\<open>*ps\<close> and
  does not return from the function. Each yielding macro carries the
  value of \<^verbatim>\<open>LINENO\<close> where it is used, which is its \<^verbatim>\<open>case\<close> label; the argument of
  \<^verbatim>\<open>PROTO_SLEEP\<close> and of \<^verbatim>\<open>PROTO_WAIT\<close> is an expression over the user variables.
  The argument \<open>t\<close> of \<^verbatim>\<open>PROTO_SLEEP\<close> is given by the float that \<^verbatim>\<open>ps->time = t\<close>
  stores.
\<close>

datatype 'v stmt =
    Code "'v \<Rightarrow> 'v"
  | PROTO_YIELD int
  | PROTO_SLEEP int "'v \<Rightarrow> real"
  | PROTO_WAIT int "'v \<Rightarrow> bool"

record 'v proto_function =
  pre_code :: "('v \<Rightarrow> 'v) list"
  body :: "'v stmt list"
  end_line :: int
  post_code :: "('v \<Rightarrow> 'v) list"

text \<open>The \<^verbatim>\<open>case\<close> label a statement introduces in the \<^verbatim>\<open>switch\<close> of \<^verbatim>\<open>PROTO_BEGIN\<close>.\<close>

fun label :: "'v stmt \<Rightarrow> int option" where
  "label (Code f) = None"
| "label (PROTO_YIELD l) = Some l"
| "label (PROTO_SLEEP l t) = Some l"
| "label (PROTO_WAIT l c) = Some l"

definition labels :: "'v stmt list \<Rightarrow> int list" where
  "labels ss = List.map_filter label ss"

text \<open>
  A C compiler rejects a \<^verbatim>\<open>switch\<close> with two equal \<^verbatim>\<open>case\<close> labels. The labels of a
  protothread function are \<open>0\<close> (from \<^verbatim>\<open>PROTO_BEGIN\<close>), the line of every yielding macro
  and the line of \<^verbatim>\<open>PROTO_END\<close>, so a function that compiles has them distinct.
\<close>

definition compiles :: "'v proto_function \<Rightarrow> bool" where
  "compiles p = distinct (0 # labels (body p) @ [end_line p])"

section \<open>One call of a protothread function\<close>

text \<open>
  What a call works on: the \<^verbatim>\<open>ProtoState\<close> behind \<^verbatim>\<open>ps\<close>, the user variables behind
  \<^verbatim>\<open>vars\<close>, and two observers that the program itself cannot read: the number of
  times \<^verbatim>\<open>Timer::GetElapsedTime()\<close> has been called, and the list of user statements
  executed so far.
\<close>

datatype event = EPre nat | EBody nat | EPost nat

record 'v world =
  ps :: ProtoState
  vars :: "'v"
  polls :: nat
  trace :: "event list"

text \<open>Control after a statement: still running inside the function, or returned.\<close>

datatype flow = Running | Returned bool

text \<open>User statements in sequence; statement \<open>i\<close> is recorded as event \<open>ev i\<close>.\<close>

fun user_code :: "(nat \<Rightarrow> event) \<Rightarrow> nat \<Rightarrow> ('v \<Rightarrow> 'v) list \<Rightarrow> 'v world \<Rightarrow> 'v world" where
  "user_code ev i [] w = w"
| "user_code ev i (f # fs) w =
     user_code ev (Suc i) fs (w\<lparr>vars := f (vars w), trace := trace w @ [ev i]\<rparr>)"

text \<open>
  \<^verbatim>\<open>ps->yield = true; ps->state = LINENO; case LINENO: if (ps->yield) return false;\<close>
  entered from above: the flag has just been set, so the function returns \<open>false\<close>.
\<close>

definition suspend :: "int \<Rightarrow> 'v world \<Rightarrow> flow \<times> 'v world" where
  "suspend l w = (Returned False, w\<lparr>ps := (ps w)\<lparr>yield := True, state := l\<rparr>\<rparr>)"

text \<open>
  Control flowing into the statements \<open>ss\<close> from above; \<open>e\<close> is the line of
  \<^verbatim>\<open>PROTO_END\<close> and \<open>i\<close> the index of the first statement of \<open>ss\<close> in the body.
  \<^item> \<^verbatim>\<open>PROTO_END\<close>: \<^verbatim>\<open>{ps->state = LINENO; case LINENO: break;}\<close> leaves the switch.
  \<^item> \<^verbatim>\<open>PROTO_SLEEP(t)\<close>: \<^verbatim>\<open>for (ps->time = t; ps->time > 0; ...) PROTO_YIELD;\<close>
  \<^item> \<^verbatim>\<open>PROTO_WAIT(c)\<close>: \<^verbatim>\<open>while (!(c)) PROTO_YIELD;\<close>
\<close>

fun exec :: "int \<Rightarrow> nat \<Rightarrow> 'v stmt list \<Rightarrow> 'v world \<Rightarrow> flow \<times> 'v world" where
  "exec e i [] w = (Running, w\<lparr>ps := (ps w)\<lparr>state := e\<rparr>\<rparr>)"
| "exec e i (Code f # r) w =
     exec e (Suc i) r (w\<lparr>vars := f (vars w), trace := trace w @ [EBody i]\<rparr>)"
| "exec e i (PROTO_YIELD l # r) w = suspend l w"
| "exec e i (PROTO_SLEEP l t # r) w =
     (let w' = w\<lparr>ps := (ps w)\<lparr>time := t (vars w)\<rparr>\<rparr>
      in if time (ps w') > 0 then suspend l w' else exec e (Suc i) r w')"
| "exec e i (PROTO_WAIT l c # r) w =
     (if \<not> c (vars w) then suspend l w else exec e (Suc i) r w)"

text \<open>
  Control entering statement \<open>s\<close> at its \<^verbatim>\<open>case\<close> label, with \<open>r\<close> the statements after
  it. The test \<^verbatim>\<open>if (ps->yield) return false;\<close> comes first. After it the body of the
  enclosing loop is finished: \<^verbatim>\<open>PROTO_SLEEP\<close> runs its increment
  \<^verbatim>\<open>ps->time -= Timer::GetElapsedTime()\<close> and tests \<^verbatim>\<open>ps->time > 0\<close>,
  \<^verbatim>\<open>PROTO_WAIT\<close> tests \<^verbatim>\<open>!(c)\<close>; a loop that goes on enters \<^verbatim>\<open>PROTO_YIELD\<close> from above.
  \<open>dt\<close> is what \<^verbatim>\<open>Timer::GetElapsedTime()\<close> returns when this call asks for it, and
  \<open>fsub x dt\<close> the float that \<^verbatim>\<open>ps->time -= dt\<close> stores when the field holds \<open>x\<close>.
\<close>

definition elapse :: "(real \<Rightarrow> real \<Rightarrow> real) \<Rightarrow> real \<Rightarrow> 'v world \<Rightarrow> 'v world" where
  "elapse fsub dt w = w\<lparr>ps := (ps w)\<lparr>time := fsub (time (ps w)) dt\<rparr>, polls := Suc (polls w)\<rparr>"

fun resume :: "(real \<Rightarrow> real \<Rightarrow> real) \<Rightarrow> real \<Rightarrow> int \<Rightarrow> nat \<Rightarrow> 'v stmt \<Rightarrow> 'v stmt list \<Rightarrow> 'v world \<Rightarrow> flow \<times> 'v world" where
  "resume fsub dt e i (Code f) r w = exec e i (Code f # r) w"
| "resume fsub dt e i (PROTO_YIELD l) r w =
     (if yield (ps w) then (Returned False, w) else exec e (Suc i) r w)"
| "resume fsub dt e i (PROTO_SLEEP l t) r w =
     (if yield (ps w) then (Returned False, w)
      else let w' = elapse fsub dt w
           in if time (ps w') > 0 then suspend l w' else exec e (Suc i) r w')"
| "resume fsub dt e i (PROTO_WAIT l c) r w =
     (if yield (ps w) then (Returned False, w)
      else if \<not> c (vars w) then suspend l w else exec e (Suc i) r w)"

text \<open>
  \<^verbatim>\<open>switch(ps->state)\<close> for a value other than \<open>0\<close>: jump to the statement whose label
  it is. At the end of the body stands \<^verbatim>\<open>case LINENO: break;\<close> of \<^verbatim>\<open>PROTO_END\<close>; the
  switch has no \<^verbatim>\<open>default\<close>, so a value that is no label skips the whole switch.
\<close>

fun switch_jump :: "(real \<Rightarrow> real \<Rightarrow> real) \<Rightarrow> real \<Rightarrow> int \<Rightarrow> nat \<Rightarrow> 'v stmt list \<Rightarrow> 'v world \<Rightarrow> flow \<times> 'v world" where
  "switch_jump fsub dt e i [] w = (if state (ps w) = e then (Running, w) else (Running, w))"
| "switch_jump fsub dt e i (s # r) w =
     (if label s = Some (state (ps w)) then resume fsub dt e i s r w
      else switch_jump fsub dt e (Suc i) r w)"

text \<open>
  \<^verbatim>\<open>switch(ps->state) { case 0: ...\<close>: the value \<open>0\<close> enters the body at its first
  statement, any other value jumps.
\<close>

definition switch_state :: "(real \<Rightarrow> real \<Rightarrow> real) \<Rightarrow> 'v proto_function \<Rightarrow> real \<Rightarrow> 'v world \<Rightarrow> flow \<times> 'v world" where
  "switch_state fsub p dt w =
     (if state (ps w) = 0 then exec (end_line p) 0 (body p) w
      else switch_jump fsub dt (end_line p) 0 (body p) w)"

text \<open>\<^verbatim>\<open>PROTO_BEGIN\<close>: \<^verbatim>\<open>ps->yield = false; switch(ps->state) { case 0:\<close>\<close>

definition PROTO_BEGIN :: "(real \<Rightarrow> real \<Rightarrow> real) \<Rightarrow> 'v proto_function \<Rightarrow> real \<Rightarrow> 'v world \<Rightarrow> flow \<times> 'v world" where
  "PROTO_BEGIN fsub p dt w = switch_state fsub p dt (w\<lparr>ps := (ps w)\<lparr>yield := False\<rparr>\<rparr>)"

text \<open>The statement \<^verbatim>\<open>return true;\<close> that ends \<^verbatim>\<open>PROTO_END\<close>.\<close>

fun return_true :: "flow \<times> 'v world \<Rightarrow> flow \<times> 'v world" where
  "return_true (Running, w) = (Returned True, w)"
| "return_true (Returned b, w) = (Returned b, w)"

text \<open>Statements after \<^verbatim>\<open>PROTO_END\<close> run if the function has not returned before them.\<close>

fun after_end :: "('v \<Rightarrow> 'v) list \<Rightarrow> flow \<times> 'v world \<Rightarrow> flow \<times> 'v world" where
  "after_end fs (Running, w) = (Running, user_code EPost 0 fs w)"
| "after_end fs (Returned b, w) = (Returned b, w)"

definition call :: "(real \<Rightarrow> real \<Rightarrow> real) \<Rightarrow> 'v proto_function \<Rightarrow> real \<Rightarrow> 'v world \<Rightarrow> flow \<times> 'v world" where
  "call fsub p dt w =
     after_end (post_code p)
       (return_true (PROTO_BEGIN fsub p dt (user_code EPre 0 (pre_code p) w)))"

section \<open>Calling a protothread function again and again\<close>

text \<open>
  The loop that calls a protothread function on each scheduling tick is the caller's.
  A tick is one call. It comes with the elapsed time the timer reports if this call
  asks, and with what the environment did to the user variables since the previous
  call. The observer \<open>trace\<close> is emptied before each call, so that it lists the
  statements of that call.
\<close>

type_synonym 'v tick = "real \<times> ('v \<Rightarrow> 'v)"

definition tick_call :: "(real \<Rightarrow> real \<Rightarrow> real) \<Rightarrow> 'v proto_function \<Rightarrow> 'v tick \<Rightarrow> 'v world \<Rightarrow> flow \<times> 'v world" where
  "tick_call fsub p t w = call fsub p (fst t) (w\<lparr>vars := snd t (vars w), trace := []\<rparr>)"

fun calls :: "(real \<Rightarrow> real \<Rightarrow> real) \<Rightarrow> 'v proto_function \<Rightarrow> 'v tick list \<Rightarrow> 'v world
    \<Rightarrow> (flow \<times> event list) list \<times> 'v world" where
  "calls fsub p [] w = ([], w)"
| "calls fsub p (t # ts) w =
     (let r = tick_call fsub p t w; rest = calls fsub p ts (snd r)
      in ((fst r, trace (snd r)) # fst rest, snd rest))"

text \<open>
  The world in which the \<^verbatim>\<open>switch\<close> of a tick is evaluated: after the environment's
  change, the code before \<^verbatim>\<open>PROTO_BEGIN\<close> and the reset of the flag.
\<close>

definition entry :: "'v proto_function \<Rightarrow> 'v tick \<Rightarrow> 'v world \<Rightarrow> 'v world" where
  "entry p t w =
     (let u = user_code EPre 0 (pre_code p) (w\<lparr>vars := snd t (vars w), trace := []\<rparr>)
      in u\<lparr>ps := (ps u)\<lparr>yield := False\<rparr>\<rparr>)"

text \<open>The events of the code before \<^verbatim>\<open>PROTO_BEGIN\<close>, each statement once, in order.\<close>

definition pre_events :: "'v proto_function \<Rightarrow> event list" where
  "pre_events p = map EPre [0..<length (pre_code p)]"

fun is_pre :: "event \<Rightarrow> bool" where
  "is_pre (EPre i) = True"
| "is_pre e = False"

fun is_post :: "event \<Rightarrow> bool" where
  "is_post (EPost i) = True"
| "is_post e = False"

section \<open>Segments\<close>






text \<open>
  The outcomes, call by call, of a body in which every yielding macro suspends once:
  \<open>tr\<close> is what the current call has run so far, \<open>pe\<close> what every later call runs
  before \<^verbatim>\<open>PROTO_BEGIN\<close>.
\<close>

fun expected :: "event list \<Rightarrow> event list \<Rightarrow> nat \<Rightarrow> 'v stmt list \<Rightarrow> (flow \<times> event list) list" where
  "expected pe tr i [] = [(Returned True, tr)]"
| "expected pe tr i (Code f # r) = expected pe (tr @ [EBody i]) (Suc i) r"
| "expected pe tr i (s # r) = (Returned False, tr) # expected pe pe (Suc i) r"

section \<open>The class ProtoThread\<close>

text \<open>
  Memory is a list of blocks of bytes; a pointer is the index of a block, or null.
  \<^verbatim>\<open>new char[n]\<close> appends a block of \<open>n\<close> bytes and returns its index, so it never
  returns a block that is already there; the bytes of the new block, which C leaves
  uninitialised, are zero. \<^verbatim>\<open>memcpy\<close> may only read and write inside
  blocks; anything else is undefined behaviour in C and a fault here. \<^verbatim>\<open>size_t\<close> is a
  natural number, and memory does not run out.
\<close>

type_synonym byte = "8 word"
type_synonym heap = "byte list list"
type_synonym pointer = "nat option"

datatype fault = BadPointer | OutOfBounds

definition new_chars :: "nat \<Rightarrow> heap \<Rightarrow> nat \<times> heap" where
  "new_chars n h = (length h, h @ [replicate n 0])"

definition memcpy :: "nat \<Rightarrow> nat \<Rightarrow> nat \<Rightarrow> heap \<Rightarrow> fault + heap" where
  "memcpy dst src n h =
     (if \<not> (dst < length h \<and> src < length h) then Inl BadPointer
      else if length (h ! src) < n \<or> length (h ! dst) < n then Inl OutOfBounds
      else Inr (h[dst := take n (h ! src) @ drop n (h ! dst)]))"

text \<open>
  \<^verbatim>\<open>class ProtoThread { Function function; ProtoState state; void* vars; }\<close>. A
  \<^verbatim>\<open>Function\<close> is a protothread function whose user variables are the bytes behind
  \<^verbatim>\<open>vars\<close>. The fields carry the prefix \<open>thread_\<close>: \<open>state\<close> and \<open>vars\<close> are fields
  of other records here, and \<open>function\<close> is a keyword.
\<close>

record ProtoThread =
  thread_function :: "byte list proto_function"
  thread_state :: ProtoState
  thread_vars :: pointer

text \<open>
  The constructor of \<^verbatim>\<open>protothread.cpp\<close>:
  \<^verbatim>\<open>
  function = f;
  vars = nullptr;
  if (_vars) { vars = new char[var_size]; memcpy (vars, _vars, var_size); }
  \<close>
  The member \<^verbatim>\<open>state\<close> is built by the constructor of \<^verbatim>\<open>ProtoState\<close>.
\<close>

definition ProtoThread_new ::
    "byte list proto_function \<Rightarrow> pointer \<Rightarrow> nat \<Rightarrow> heap \<Rightarrow> fault + (ProtoThread \<times> heap)" where
  "ProtoThread_new f vars0 var_size h =
     (let t = \<lparr>thread_function = f, thread_state = ProtoState_init, thread_vars = None\<rparr>
      in case vars0 of
           None \<Rightarrow> Inr (t, h)
         | Some src \<Rightarrow>
             (let (a, h1) = new_chars var_size h
              in case memcpy a src var_size h1 of
                   Inl e \<Rightarrow> Inl e
                 | Inr h2 \<Rightarrow> Inr (t\<lparr>thread_vars := Some a\<rparr>, h2)))"

text \<open>
  Reading and writing the block behind a pointer. Behind a null pointer, or a pointer to
  no block, there are no bytes to read and nothing is written.
\<close>

fun deref :: "heap \<Rightarrow> pointer \<Rightarrow> byte list" where
  "deref h None = []"
| "deref h (Some a) = (if a < length h then h ! a else [])"

fun store :: "pointer \<Rightarrow> byte list \<Rightarrow> heap \<Rightarrow> heap" where
  "store None bs h = h"
| "store (Some a) bs h = h[a := bs]"

text \<open>
  The class has no method that runs the thread. The call is the scheduler's:
  \<^verbatim>\<open>function (&state, vars)\<close>, on the thread's own state and its own block. The user
  statements of the function work on the content of that block.
\<close>

definition drive :: "(real \<Rightarrow> real \<Rightarrow> real) \<Rightarrow> real \<Rightarrow> ProtoThread \<Rightarrow> heap \<Rightarrow> (flow \<times> event list) \<times> ProtoThread \<times> heap" where
  "drive fsub dt T h =
     (let r = call fsub (thread_function T) dt
                \<lparr>ps = thread_state T, vars = deref h (thread_vars T), polls = 0, trace = []\<rparr>
      in ((fst r, trace (snd r)),
          T\<lparr>thread_state := ps (snd r)\<rparr>,
          store (thread_vars T) (vars (snd r)) h))"




section \<open>Example functions\<close>

text \<open>A state as the constructor of \<^verbatim>\<open>ProtoState\<close> leaves it, with user variables \<open>v\<close>.\<close>

definition fresh :: "'v \<Rightarrow> 'v world" where
  "fresh v = \<lparr>ps = ProtoState_init, vars = v, polls = 0, trace = []\<rparr>"


definition wait_after_code :: "nat proto_function" where
  "wait_after_code =
     \<lparr>pre_code = [], body = [Code Suc, PROTO_WAIT 10 ((\<le>) 3), Code Suc], end_line = 12,
      post_code = []\<rparr>"

text \<open>\<^verbatim>\<open>PROTO_BEGIN; PROTO_SLEEP(*vars); PROTO_END;\<close> over a duration.\<close>

definition sleep_example :: "real proto_function" where
  "sleep_example = \<lparr>pre_code = [], body = [PROTO_SLEEP 10 id], end_line = 11, post_code = []\<rparr>"

text \<open>
  A subtraction that rounds its result to a whole number, as an example of one that is
  not exact.
\<close>

definition round_sub :: "real \<Rightarrow> real \<Rightarrow> real" where
  "round_sub x d = of_int (round (x - d))"

text \<open>
  \<^verbatim>\<open>++*vars; PROTO_BEGIN; ++*vars; PROTO_YIELD; PROTO_END;\<close> and a state suspended at
  its yield.
\<close>

definition yield_example :: "nat proto_function" where
  "yield_example =
     \<lparr>pre_code = [Suc], body = [Code Suc, PROTO_YIELD 10], end_line = 11, post_code = []\<rparr>"

definition yielded :: "nat world" where
  "yielded = \<lparr>ps = \<lparr>state = 10, time = 7, yield = True\<rparr>, vars = 0, polls = 0, trace = []\<rparr>"



text \<open>
  A function over a block of bytes, and the two threads that the constructor builds for
  it in a memory with one block.
\<close>

definition bump :: "byte list proto_function" where
  "bump = \<lparr>pre_code = [], body = [Code (map (\<lambda>b. b + 1)), PROTO_YIELD 10, Code rev],
            end_line = 11, post_code = []\<rparr>"






section \<open>Basic facts about a call\<close>

lemma user_code_ps: "(user_code ev i fs w)\<lparr>ps := x\<rparr> = user_code ev i fs (w\<lparr>ps := x\<rparr>)"
proof (induction fs arbitrary: i w)
  case Nil
  then show ?case by simp
next
  case (Cons f fs)
  have h: "w\<lparr>vars := f (vars w), trace := trace w @ [ev i], ps := x\<rparr>
        = w\<lparr>ps := x, vars := f (vars w), trace := trace w @ [ev i]\<rparr>"
    by (cases w) simp
  show ?case by (simp add: Cons.IH h)
qed

lemma ps_user_code [simp]: "ps (user_code ev i fs w) = ps w"
  by (induction fs arbitrary: i w) simp_all

lemma polls_user_code [simp]: "polls (user_code ev i fs w) = polls w"
  by (induction fs arbitrary: i w) simp_all

lemma trace_user_code: "trace (user_code ev i fs w) = trace w @ map ev [i..<i + length fs]"
proof (induction fs arbitrary: i w)
  case Nil
  then show ?case by simp
next
  case (Cons f fs)
  have "[i..<i + length (f # fs)] = i # [Suc i..<Suc i + length fs]"
    using upt_conv_Cons [of i "i + Suc (length fs)"] by simp
  then show ?case using Cons.IH by simp
qed

lemma user_code_eq:
  "user_code ev i fs w
     = w\<lparr>vars := foldl (\<lambda>v f. f v) (vars w) fs, trace := trace w @ map ev [i..<i + length fs]\<rparr>"
proof (induction fs arbitrary: i w)
  case Nil
  then show ?case by simp
next
  case (Cons f fs)
  have "[i..<i + length (f # fs)] = i # [Suc i..<Suc i + length fs]"
    using upt_conv_Cons [of i "i + Suc (length fs)"] by simp
  then show ?case by (simp add: Cons.IH)
qed

lemma PROTO_BEGIN_yield: "PROTO_BEGIN fsub p dt (w\<lparr>ps := (ps w)\<lparr>yield := b\<rparr>\<rparr>) = PROTO_BEGIN fsub p dt w"
  by (simp add: PROTO_BEGIN_def)


lemma exec_filter:
  assumes "\<And>i. \<not> P (EBody i)"
  shows "filter P (trace (snd (exec e i r w))) = filter P (trace w)"
proof (induction r arbitrary: i w)
  case Nil
  then show ?case by simp
next
  case (Cons s r)
  then show ?case using assms by (cases s) (simp_all add: suspend_def Let_def)
qed

lemma resume_filter:
  assumes "\<And>i. \<not> P (EBody i)"
  shows "filter P (trace (snd (resume fsub dt e i s r w))) = filter P (trace w)"
  using assms by (cases s) (simp_all add: suspend_def elapse_def Let_def exec_filter)

lemma switch_jump_filter:
  assumes "\<And>i. \<not> P (EBody i)"
  shows "filter P (trace (snd (switch_jump fsub dt e i r w))) = filter P (trace w)"
  using assms by (induction r arbitrary: i) (simp_all add: resume_filter)

lemma switch_state_filter:
  assumes "\<And>i. \<not> P (EBody i)"
  shows "filter P (trace (snd (switch_state fsub p dt w))) = filter P (trace w)"
  using assms by (simp add: switch_state_def exec_filter switch_jump_filter)

lemma PROTO_BEGIN_filter:
  assumes "\<And>i. \<not> P (EBody i)"
  shows "filter P (trace (snd (PROTO_BEGIN fsub p dt w))) = filter P (trace w)"
  using assms by (simp add: PROTO_BEGIN_def switch_state_filter)

lemma return_true_Returned: "\<exists>b. fst (return_true fw) = Returned b"
  by (cases fw rule: return_true.cases) auto

lemma snd_return_true [simp]: "snd (return_true fw) = snd fw"
  by (cases fw rule: return_true.cases) simp_all

lemma after_end_return_true [simp]: "after_end fs (return_true fw) = return_true fw"
  by (cases fw rule: return_true.cases) simp_all

lemma call_eq: "call fsub p dt w = return_true (PROTO_BEGIN fsub p dt (user_code EPre 0 (pre_code p) w))"
  by (simp add: call_def)

section \<open>Labels and the dispatch\<close>

lemma labels_Nil [simp]: "labels [] = []"
  by (simp add: labels_def)

lemma labels_Cons:
  "labels (s # ss) = (case label s of None \<Rightarrow> labels ss | Some l \<Rightarrow> l # labels ss)"
  by (simp add: labels_def split: option.split)

lemma labels_append [simp]: "labels (xs @ ys) = labels xs @ labels ys"
  by (induction xs) (simp_all add: labels_Cons split: option.split)

lemma label_in_labels: "label s = Some l \<Longrightarrow> l \<in> set (labels (s # ss))"
  by (simp add: labels_Cons)

lemma switch_jump_finds:
  assumes "label s = Some l" "l \<notin> set (labels xs)" "state (ps w) = l"
  shows "switch_jump fsub dt e i (xs @ s # r) w = resume fsub dt e (i + length xs) s r w"
  using assms
proof (induction xs arbitrary: i)
  case Nil
  then show ?case by simp
next
  case (Cons x xs)
  have "label x \<noteq> Some l"
    using Cons.prems(2) by (auto simp: labels_Cons)
  then show ?case using Cons by (simp add: labels_Cons split: option.splits)
qed

lemma switch_jump_none:
  assumes "state (ps w) \<notin> set (labels ss)"
  shows "switch_jump fsub dt e i ss w = (Running, w)"
  using assms
proof (induction ss arbitrary: i)
  case Nil
  then show ?case by simp
next
  case (Cons s ss)
  have "label s \<noteq> Some (state (ps w))"
    using Cons.prems by (auto simp: labels_Cons)
  then show ?case using Cons by (simp add: labels_Cons split: option.splits)
qed

lemma compiles_at:
  assumes "compiles p" "body p = xs @ s # r" "label s = Some l"
  shows "l \<noteq> 0" "l \<notin> set (labels xs)" "l \<noteq> end_line p"
  using assms by (auto simp: compiles_def labels_Cons)

lemma switch_state_resumes:
  assumes "compiles p" "body p = xs @ s # r" "label s = Some l" "state (ps w) = l"
  shows "switch_state fsub p dt w = resume fsub dt (end_line p) (length xs) s r w"
  using compiles_at [OF assms(1-3)] assms(2-4) switch_jump_finds [of s l xs w fsub dt "end_line p" 0 r]
  by (simp add: switch_state_def)

lemma tick_call_eq: "tick_call fsub p t w = return_true (switch_state fsub p (fst t) (entry p t w))"
  by (simp add: tick_call_def call_eq PROTO_BEGIN_def entry_def Let_def)

lemma ps_entry: "ps (entry p t w) = (ps w)\<lparr>yield := False\<rparr>"
  by (simp add: entry_def Let_def)

lemma trace_entry: "trace (entry p t w) = pre_events p"
  by (simp add: entry_def Let_def trace_user_code pre_events_def)

lemma polls_entry: "polls (entry p t w) = polls w"
  by (simp add: entry_def Let_def)

lemma polls_exec: "polls (snd (exec e i r w)) = polls w"
proof (induction r arbitrary: i w)
  case Nil
  then show ?case by simp
next
  case (Cons s r)
  then show ?case by (cases s) (simp_all add: suspend_def Let_def)
qed

section \<open>A function suspended at a wait or at a sleep\<close>

lemma return_true_suspend [simp]: "return_true (suspend l w) = suspend l w"
  by (simp add: suspend_def)

lemma suspend_simps [simp]:
  "fst (suspend l w) = Returned False"
  "state (ps (snd (suspend l w))) = l"
  "time (ps (snd (suspend l w))) = time (ps w)"
  "vars (snd (suspend l w)) = vars w"
  "polls (snd (suspend l w)) = polls w"
  "trace (snd (suspend l w)) = trace w"
  by (simp_all add: suspend_def)

lemma wait_tick:
  assumes "compiles p" "body p = xs @ PROTO_WAIT l c # r" "state (ps w) = l"
  shows "tick_call fsub p t w =
    (if \<not> c (vars (entry p t w)) then suspend l (entry p t w)
     else return_true (exec (end_line p) (Suc (length xs)) r (entry p t w)))"
proof -
  have "state (ps (entry p t w)) = l"
    using assms(3) by (simp add: ps_entry)
  then have "switch_state fsub p (fst t) (entry p t w)
      = resume fsub (fst t) (end_line p) (length xs) (PROTO_WAIT l c) r (entry p t w)"
    using switch_state_resumes [OF assms(1,2)] by simp
  then show ?thesis
    by (simp add: tick_call_eq ps_entry)
qed

lemma wait_suspended_calls:
  assumes "compiles p" "body p = xs @ PROTO_WAIT l c # r" "state (ps w) = l"
    and "\<forall>k<length ts. \<not> c (vars (entry p (ts ! k) (snd (calls fsub p (take k ts) w))))"
  shows "fst (calls fsub p ts w) = replicate (length ts) (Returned False, pre_events p)
         \<and> state (ps (snd (calls fsub p ts w))) = l"
  using assms(3,4)
proof (induction ts arbitrary: w)
  case Nil
  then show ?case by simp
next
  case (Cons t ts)
  have f: "\<not> c (vars (entry p t w))"
    using Cons.prems(2) by fastforce
  have step: "tick_call fsub p t w = suspend l (entry p t w)"
    using wait_tick [OF assms(1,2) Cons.prems(1)] f by simp
  let ?w1 = "snd (suspend l (entry p t w))"
  have "\<forall>k<length ts. \<not> c (vars (entry p (ts ! k) (snd (calls fsub p (take k ts) ?w1))))"
  proof (intro allI impI)
    fix k assume "k < length ts"
    then have "\<not> c (vars (entry p ((t # ts) ! Suc k) (snd (calls fsub p (take (Suc k) (t # ts)) w))))"
      using Cons.prems(2) by (metis Suc_less_eq length_Cons)
    then show "\<not> c (vars (entry p (ts ! k) (snd (calls fsub p (take k ts) ?w1))))"
      by (simp add: step Let_def)
  qed
  then have "fst (calls fsub p ts ?w1) = replicate (length ts) (Returned False, pre_events p)
         \<and> state (ps (snd (calls fsub p ts ?w1))) = l"
    using Cons.IH [of ?w1] by simp
  then show ?case
    by (simp add: step Let_def trace_entry)
qed

lemma elapse_simps [simp]:
  "time (ps (elapse fsub dt w)) = fsub (time (ps w)) dt"
  "state (ps (elapse fsub dt w)) = state (ps w)"
  "yield (ps (elapse fsub dt w)) = yield (ps w)"
  "polls (elapse fsub dt w) = Suc (polls w)"
  "vars (elapse fsub dt w) = vars w"
  "trace (elapse fsub dt w) = trace w"
  by (simp_all add: elapse_def)

lemma sleep_tick:
  assumes "compiles p" "body p = xs @ PROTO_SLEEP l t # r" "state (ps w) = l"
  shows "tick_call fsub p tk w =
    (if fsub (time (ps w)) (fst tk) > 0 then suspend l (elapse fsub (fst tk) (entry p tk w))
     else return_true (exec (end_line p) (Suc (length xs)) r (elapse fsub (fst tk) (entry p tk w))))"
proof -
  have "state (ps (entry p tk w)) = l"
    using assms(3) by (simp add: ps_entry)
  then have "switch_state fsub p (fst tk) (entry p tk w)
      = resume fsub (fst tk) (end_line p) (length xs) (PROTO_SLEEP l t) r (entry p tk w)"
    using switch_state_resumes [OF assms(1,2)] by simp
  then show ?thesis
    by (simp add: tick_call_eq ps_entry Let_def)
qed

lemma sleep_suspended_calls:
  assumes "compiles p" "body p = xs @ PROTO_SLEEP l t # r" "state (ps w) = l"
    and "\<forall>k\<le>length ts. 0 < foldl fsub (time (ps w)) (map fst (take k ts))"
  shows "fst (calls fsub p ts w) = replicate (length ts) (Returned False, pre_events p)
         \<and> state (ps (snd (calls fsub p ts w))) = l
         \<and> time (ps (snd (calls fsub p ts w))) = foldl fsub (time (ps w)) (map fst ts)
         \<and> polls (snd (calls fsub p ts w)) = polls w + length ts"
  using assms(3,4)
proof (induction ts arbitrary: w)
  case Nil
  then show ?case by simp
next
  case (Cons tk ts)
  have "0 < foldl fsub (time (ps w)) (map fst (take 1 (tk # ts)))"
    using Cons.prems(2) by (metis One_nat_def Suc_leI length_Cons zero_less_Suc)
  then have f: "0 < fsub (time (ps w)) (fst tk)" by simp
  have step: "tick_call fsub p tk w = suspend l (elapse fsub (fst tk) (entry p tk w))"
    using sleep_tick [OF assms(1,2) Cons.prems(1)] f by simp
  let ?w1 = "snd (suspend l (elapse fsub (fst tk) (entry p tk w)))"
  have t1: "time (ps ?w1) = fsub (time (ps w)) (fst tk)"
    by (simp add: ps_entry)
  have "\<forall>k\<le>length ts. 0 < foldl fsub (time (ps ?w1)) (map fst (take k ts))"
  proof (intro allI impI)
    fix k assume "k \<le> length ts"
    then have "0 < foldl fsub (time (ps w)) (map fst (take (Suc k) (tk # ts)))"
      using Cons.prems(2) by (metis Suc_le_mono length_Cons)
    then show "0 < foldl fsub (time (ps ?w1)) (map fst (take k ts))"
      by (simp add: ps_entry)
  qed
  then have "fst (calls fsub p ts ?w1) = replicate (length ts) (Returned False, pre_events p)
         \<and> state (ps (snd (calls fsub p ts ?w1))) = l
         \<and> time (ps (snd (calls fsub p ts ?w1))) = foldl fsub (time (ps ?w1)) (map fst ts)
         \<and> polls (snd (calls fsub p ts ?w1)) = polls ?w1 + length ts"
    using Cons.IH [of ?w1] by simp
  then show ?case
    by (simp add: step Let_def trace_entry ps_entry polls_entry)
qed

lemma foldl_minus: "foldl (-) (x::real) ds = x - sum_list ds"
  by (induction ds arbitrary: x) simp_all

lemma sleep_overwrites:
  "exec e i (PROTO_SLEEP l t # r) (w\<lparr>ps := (ps w)\<lparr>time := x\<rparr>\<rparr>) = exec e i (PROTO_SLEEP l t # r) w"
  by (simp add: Let_def)

lemmas run_defs = compiles_def labels_def entry_def tick_call_def
  call_def PROTO_BEGIN_def switch_state_def suspend_def pre_events_def elapse_def
  ProtoState_init_def fresh_def Let_def

section \<open>A function that has ended\<close>

lemma exec_not_True: "fst (exec e i r w) \<noteq> Returned True"
proof (induction r arbitrary: i w)
  case Nil
  then show ?case by simp
next
  case (Cons s r)
  then show ?case by (cases s) (simp_all add: suspend_def Let_def)
qed

lemma exec_Running: "fst (exec e i r w) = Running \<Longrightarrow> state (ps (snd (exec e i r w))) = e"
proof (induction r arbitrary: i w)
  case Nil
  then show ?case by simp
next
  case (Cons s r)
  then show ?case by (cases s) (simp_all add: suspend_def Let_def split: if_splits)
qed

lemma resume_not_True: "fst (resume fsub dt e i s r w) \<noteq> Returned True"
  by (cases s) (simp_all add: suspend_def Let_def exec_not_True)

lemma resume_Running:
  "fst (resume fsub dt e i s r w) = Running \<Longrightarrow> state (ps (snd (resume fsub dt e i s r w))) = e"
  by (cases s) (simp_all add: suspend_def Let_def exec_Running split: if_splits)

lemma switch_jump_not_True: "fst (switch_jump fsub dt e i ss w) \<noteq> Returned True"
  by (induction ss arbitrary: i) (simp_all add: resume_not_True)

lemma switch_jump_Running:
  "fst (switch_jump fsub dt e i ss w) = Running \<Longrightarrow>
     state (ps (snd (switch_jump fsub dt e i ss w))) = e
     \<or> (snd (switch_jump fsub dt e i ss w) = w \<and> state (ps w) \<notin> set (labels ss))"
proof (induction ss arbitrary: i)
  case Nil
  then show ?case by simp
next
  case (Cons s ss)
  show ?case
  proof (cases "label s = Some (state (ps w))")
    case True
    then show ?thesis using Cons.prems resume_Running [of fsub dt e i s ss w] by simp
  next
    case False
    then have j: "switch_jump fsub dt e i (s # ss) w = switch_jump fsub dt e (Suc i) ss w"
      by simp
    have "state (ps w) \<notin> set (labels ss) \<Longrightarrow> state (ps w) \<notin> set (labels (s # ss))"
      using False by (auto simp: labels_Cons split: option.splits)
    then show ?thesis
      using Cons.IH [of "Suc i"] Cons.prems unfolding j by blast
  qed
qed

lemma call_True_terminal:
  assumes "compiles p" "fst (call fsub p dt w) = Returned True"
  shows "state (ps (snd (call fsub p dt w))) \<noteq> 0
         \<and> state (ps (snd (call fsub p dt w))) \<notin> set (labels (body p))"
proof -
  let ?u = "(user_code EPre 0 (pre_code p) w)\<lparr>ps := (ps (user_code EPre 0 (pre_code p) w))\<lparr>yield := False\<rparr>\<rparr>"
  let ?r = "switch_state fsub p dt ?u"
  have c: "call fsub p dt w = return_true ?r"
    by (simp add: call_eq PROTO_BEGIN_def)
  have e: "end_line p \<noteq> 0" "end_line p \<notin> set (labels (body p))"
    using assms(1) by (auto simp: compiles_def)
  have "fst ?r \<noteq> Returned True"
    by (simp add: switch_state_def exec_not_True switch_jump_not_True)
  then have run: "fst ?r = Running"
    using assms(2) c by (cases ?r rule: return_true.cases) auto
  have "state (ps (snd ?r)) \<noteq> 0 \<and> state (ps (snd ?r)) \<notin> set (labels (body p))"
  proof (cases "state (ps ?u) = 0")
    case True
    then have "state (ps (snd ?r)) = end_line p"
      using run exec_Running [of "end_line p" 0 "body p" ?u] by (simp add: switch_state_def)
    then show ?thesis using e by simp
  next
    case False
    then have j: "?r = switch_jump fsub dt (end_line p) 0 (body p) ?u"
      by (simp add: switch_state_def)
    have "state (ps (snd ?r)) = end_line p
       \<or> (snd ?r = ?u \<and> state (ps ?u) \<notin> set (labels (body p)))"
      using run switch_jump_Running [of fsub dt "end_line p" 0 "body p" ?u] unfolding j by blast
    then show ?thesis
    proof
      assume "state (ps (snd ?r)) = end_line p"
      then show ?thesis using e by simp
    next
      assume "snd ?r = ?u \<and> state (ps ?u) \<notin> set (labels (body p))"
      then show ?thesis using False by simp
    qed
  qed
  then show ?thesis by (simp add: c)
qed

lemma terminal_tick:
  assumes "state (ps w) \<noteq> 0" "state (ps w) \<notin> set (labels (body p))"
  shows "tick_call fsub p t w = (Returned True, entry p t w)"
  using assms switch_jump_none [of "entry p t w" "body p" fsub "fst t" "end_line p" 0]
  by (simp add: tick_call_eq switch_state_def ps_entry)

lemma terminal_calls:
  assumes "state (ps w) \<noteq> 0" "state (ps w) \<notin> set (labels (body p))"
  shows "fst (calls fsub p ts w) = replicate (length ts) (Returned True, pre_events p)
       \<and> time (ps (snd (calls fsub p ts w))) = time (ps w)
       \<and> state (ps (snd (calls fsub p ts w))) = state (ps w)
       \<and> polls (snd (calls fsub p ts w)) = polls w"
  using assms
proof (induction ts arbitrary: w)
  case Nil
  then show ?case by simp
next
  case (Cons t ts)
  have step: "tick_call fsub p t w = (Returned True, entry p t w)"
    using terminal_tick Cons.prems by blast
  have "state (ps (entry p t w)) \<noteq> 0" "state (ps (entry p t w)) \<notin> set (labels (body p))"
    using Cons.prems by (simp_all add: ps_entry)
  then have "fst (calls fsub p ts (entry p t w)) = replicate (length ts) (Returned True, pre_events p)
       \<and> time (ps (snd (calls fsub p ts (entry p t w)))) = time (ps (entry p t w))
       \<and> state (ps (snd (calls fsub p ts (entry p t w)))) = state (ps (entry p t w))
       \<and> polls (snd (calls fsub p ts (entry p t w))) = polls (entry p t w)"
    using Cons.IH by blast
  then show ?case
    by (simp add: step Let_def trace_entry ps_entry polls_entry)
qed

section \<open>Code around the dispatch\<close>

text \<open>
  Claim C6. In every call, whatever value \<open>ps->state\<close> holds on entry (\<open>0\<close>, the label
  of a yield, the line of \<^verbatim>\<open>PROTO_END\<close> or anything else), every statement placed before
  \<^verbatim>\<open>PROTO_BEGIN\<close> is executed exactly once, in order, before the dispatch:
  \<^item> the call adds to the trace exactly one event for each of them, in order;
  \<^item> the call is the call of the same function without those statements, from the
    state in which each of them has been applied once to the user variables, in order.
\<close>

theorem pre_code_runs_once_per_call:
  "filter is_pre (trace (snd (call fsub p dt w)))
     = filter is_pre (trace w) @ map EPre [0..<length (pre_code p)]
   \<and> call fsub p dt w
     = call fsub (p\<lparr>pre_code := []\<rparr>) dt
         (w\<lparr>vars := foldl (\<lambda>v f. f v) (vars w) (pre_code p),
            trace := trace w @ map EPre [0..<length (pre_code p)]\<rparr>)"
proof -
  have "filter is_pre (map EPre xs) = map EPre xs" for xs
    by (induction xs) simp_all
  then have "filter is_pre (trace (snd (call fsub p dt w)))
     = filter is_pre (trace w) @ map EPre [0..<length (pre_code p)]"
    by (simp add: call_eq PROTO_BEGIN_filter trace_user_code)
  moreover have "PROTO_BEGIN fsub (p\<lparr>pre_code := []\<rparr>) dt u = PROTO_BEGIN fsub p dt u" for u
    by (simp add: PROTO_BEGIN_def switch_state_def)
  then have "call fsub p dt w
     = call fsub (p\<lparr>pre_code := []\<rparr>) dt
         (w\<lparr>vars := foldl (\<lambda>v f. f v) (vars w) (pre_code p),
            trace := trace w @ map EPre [0..<length (pre_code p)]\<rparr>)"
    using user_code_eq [of EPre 0 "pre_code p" w] by (simp add: call_eq)
  ultimately show ?thesis by simp
qed

text \<open>
  Claim C7. In every call, from any state, no statement placed after \<^verbatim>\<open>PROTO_END\<close> is
  executed: the call adds no event of such a statement to the trace, its outcome is
  the same whatever those statements are, and it has returned a boolean.
\<close>

theorem code_after_end_never_runs:
  "filter is_post (trace (snd (call fsub p dt w))) = filter is_post (trace w)
   \<and> call fsub (p\<lparr>post_code := fs\<rparr>) dt w = call fsub p dt w
   \<and> (\<exists>b. fst (call fsub p dt w) = Returned b)"
proof -
  have "filter is_post (map EPre xs) = []" for xs
    by (induction xs) simp_all
  then have "filter is_post (trace (snd (call fsub p dt w))) = filter is_post (trace w)"
    by (simp add: call_eq PROTO_BEGIN_filter trace_user_code)
  moreover have "call fsub (p\<lparr>post_code := fs\<rparr>) dt w = call fsub p dt w"
    by (simp add: call_eq PROTO_BEGIN_def switch_state_def)
  moreover have "\<exists>b. fst (call fsub p dt w) = Returned b"
    by (simp add: call_eq return_true_Returned)
  ultimately show ?thesis by simp
qed

text \<open>
  Claim C8. The flag \<open>yield\<close> is not observed across calls: a call gives the same
  result and the same final state whatever the value of the flag on entry, because
  \<^verbatim>\<open>PROTO_BEGIN\<close> resets it before the dispatch.
\<close>

theorem suspending_flag_transient:
  "call fsub p dt (w\<lparr>ps := (ps w)\<lparr>yield := b\<rparr>\<rparr>) = call fsub p dt w"
proof -
  let ?u = "user_code EPre 0 (pre_code p) w"
  have "user_code EPre 0 (pre_code p) (w\<lparr>ps := (ps w)\<lparr>yield := b\<rparr>\<rparr>) = ?u\<lparr>ps := (ps ?u)\<lparr>yield := b\<rparr>\<rparr>"
    by (simp add: user_code_ps [symmetric])
  then show ?thesis
    by (simp only: call_def PROTO_BEGIN_yield)
qed

section \<open>Suspension points\<close>

text \<open>
  Claim C3. Let a function that compiles contain \<^verbatim>\<open>PROTO_WAIT(c)\<close> at line \<open>l\<close>, and let
  the call \<open>t0\<close> from the state \<open>w0\<close> be one in which control reaches the wait, in the
  state \<open>w\<close>.
  \<^item> If \<open>c\<close> holds in \<open>w\<close>, the wait does not suspend: the call goes on with the
    statements after it.
  \<^item> If \<open>c\<close> does not hold in \<open>w\<close>, the call returns \<open>false\<close> and leaves the state \<open>w\<close>
    with \<open>state = l\<close>. If the predicate, evaluated afresh on the user variables of each
    call, is false again in each of the next calls \<open>ts\<close> and true in the call \<open>t\<close> after
    them, then each call of \<open>ts\<close> returns \<open>false\<close> too, having run only the code before
    \<^verbatim>\<open>PROTO_BEGIN\<close>, the state stays suspended at \<open>l\<close>, and the call \<open>t\<close> goes on with
    the statements after the wait.
  So a predicate that first holds at its \<open>m\<close>-th evaluation (\<open>m = length ts + 2\<close>) gives
  \<open>m - 1\<close> suspensions.
\<close>

theorem wait_semantics:
  assumes "compiles p" "body p = xs @ PROTO_WAIT l c # r"
    and "switch_state fsub p (fst t0) (entry p t0 w0)
           = exec (end_line p) (length xs) (PROTO_WAIT l c # r) w"
  shows "(c (vars w) \<longrightarrow>
            tick_call fsub p t0 w0 = return_true (exec (end_line p) (Suc (length xs)) r w))
       \<and> (\<not> c (vars w)
            \<and> (\<forall>k<length ts.
                  \<not> c (vars (entry p (ts ! k) (snd (calls fsub p (t0 # take k ts) w0)))))
            \<and> c (vars (entry p t (snd (calls fsub p (t0 # ts) w0))))
          \<longrightarrow> tick_call fsub p t0 w0
                = (Returned False, w\<lparr>ps := (ps w)\<lparr>yield := True, state := l\<rparr>\<rparr>)
            \<and> fst (calls fsub p (t0 # ts) w0)
                = (Returned False, trace w) # replicate (length ts) (Returned False, pre_events p)
            \<and> state (ps (snd (calls fsub p (t0 # ts) w0))) = l
            \<and> tick_call fsub p t (snd (calls fsub p (t0 # ts) w0))
                = return_true (exec (end_line p) (Suc (length xs)) r
                                 (entry p t (snd (calls fsub p (t0 # ts) w0)))))"
proof (intro conjI impI)
  assume "c (vars w)"
  then show "tick_call fsub p t0 w0 = return_true (exec (end_line p) (Suc (length xs)) r w)"
    by (simp add: tick_call_eq assms(3))
next
  have tc: "tick_call fsub p t0 w0
      = return_true (exec (end_line p) (length xs) (PROTO_WAIT l c # r) w)"
    by (simp add: tick_call_eq assms(3))
  assume h: "\<not> c (vars w)
            \<and> (\<forall>k<length ts.
                  \<not> c (vars (entry p (ts ! k) (snd (calls fsub p (t0 # take k ts) w0)))))
            \<and> c (vars (entry p t (snd (calls fsub p (t0 # ts) w0))))"
  let ?w1 = "w\<lparr>ps := (ps w)\<lparr>yield := True, state := l\<rparr>\<rparr>"
  show first: "tick_call fsub p t0 w0 = (Returned False, ?w1)"
    using h by (simp add: tc suspend_def)
  have after: "calls fsub p (t0 # us) w0
      = ((Returned False, trace w) # fst (calls fsub p us ?w1), snd (calls fsub p us ?w1))" for us
    by (simp add: first Let_def)
  have st: "state (ps ?w1) = l" by simp
  have "\<forall>k<length ts. \<not> c (vars (entry p (ts ! k) (snd (calls fsub p (take k ts) ?w1))))"
    using h by (simp add: after del: calls.simps)
  then have s: "fst (calls fsub p ts ?w1) = replicate (length ts) (Returned False, pre_events p)
         \<and> state (ps (snd (calls fsub p ts ?w1))) = l"
    using wait_suspended_calls [OF assms(1,2) st] by blast
  show "fst (calls fsub p (t0 # ts) w0)
      = (Returned False, trace w) # replicate (length ts) (Returned False, pre_events p)"
    using s by (simp add: after del: calls.simps)
  show "state (ps (snd (calls fsub p (t0 # ts) w0))) = l"
    using s by (simp add: after del: calls.simps)
  have "c (vars (entry p t (snd (calls fsub p ts ?w1))))"
    using h by (simp add: after del: calls.simps)
  then show "tick_call fsub p t (snd (calls fsub p (t0 # ts) w0))
      = return_true (exec (end_line p) (Suc (length xs)) r
                       (entry p t (snd (calls fsub p (t0 # ts) w0))))"
    using wait_tick [OF assms(1,2), of "snd (calls fsub p ts ?w1)" fsub t] s
    by (simp add: after del: calls.simps)
qed

text \<open>
  The function \<^verbatim>\<open>begin; ++*vars; wait(*vars >= 3); ++*vars; end\<close> called from a fresh
  state with \<open>*vars = 0\<close>, the environment adding one to \<open>*vars\<close> before the second and
  before the third call: the predicate first holds at its third evaluation, and there
  are two suspensions.
\<close>

theorem wait_semantics_witness:
  "compiles wait_after_code
   \<and> body wait_after_code = [Code Suc] @ PROTO_WAIT 10 ((\<le>) 3) # [Code Suc]
   \<and> switch_state (-) wait_after_code (fst (0, id)) (entry wait_after_code (0, id) (fresh 0))
       = exec (end_line wait_after_code) (length [Code Suc]) (PROTO_WAIT 10 ((\<le>) 3) # [Code Suc])
           ((fresh 0)\<lparr>vars := 1, trace := [EBody 0]\<rparr>)
   \<and> fst (calls (-) wait_after_code [(0, id), (0, Suc), (0, Suc)] (fresh 0))
       = [(Returned False, [EBody 0]), (Returned False, []), (Returned True, [EBody 2])]
   \<and> state (ps (snd (calls (-) wait_after_code [(0, id), (0, Suc)] (fresh 0)))) = 10
   \<and> vars (snd (calls (-) wait_after_code [(0, id), (0, Suc), (0, Suc)] (fresh 0))) = 4"
  using wait_semantics [of wait_after_code "[Code Suc]" 10 "(\<le>) 3" "[Code Suc]" "(-)" "(0, id)"
      "fresh 0" "(fresh 0)\<lparr>vars := 1, trace := [EBody 0]\<rparr>" "[(0, Suc)]" "(0, Suc)"]
  by (simp add: wait_after_code_def run_defs)

text \<open>
  Claim C4, as the code has it. The field \<open>time\<close> is a float, and
  \<^verbatim>\<open>ps->time -= Timer::GetElapsedTime()\<close> rounds: \<open>fsub x d\<close> is the float that it stores
  for the old value \<open>x\<close> and the elapsed time \<open>d\<close>, and \<open>foldl fsub x [d1, ..., dk]\<close> is
  the countdown after \<open>k\<close> such statements. The duration \<open>t\<close> is the value that
  \<^verbatim>\<open>ps->time = t\<close> stores. All of these are finite floats. Let a function that compiles contain \<^verbatim>\<open>PROTO_SLEEP(t)\<close> at
  line \<open>l\<close>, and let the call \<open>t0\<close> from the state \<open>w0\<close> be one in which control reaches
  the sleep, in the state \<open>w\<close>. If the countdown from \<open>t\<close> is positive at first
  and after each of the elapsed times of the next calls \<open>ts\<close>, and zero or negative after
  that of the call \<open>tz\<close> after them, then
  \<^item> the call \<open>t0\<close> stores \<open>t\<close> in \<open>time\<close>, returns \<open>false\<close> with \<open>state = l\<close> and does
    not ask the timer;
  \<^item> each call of \<open>ts\<close> asks the timer once and returns \<open>false\<close>, having run only the
    code before \<^verbatim>\<open>PROTO_BEGIN\<close>; the state stays suspended at \<open>l\<close> and \<open>time\<close> holds the
    countdown;
  \<^item> the call \<open>tz\<close> goes on with the statements after the sleep, in a state where
    \<open>time\<close> holds the final countdown, which is zero or negative.
  With exact subtraction the countdown is the duration minus the sum of the elapsed
  times, so the sleep ends at the first step at which the running sum reaches the
  duration, and \<open>time\<close> then holds the surplus with its sign reversed. A later sleep
  overwrites \<open>time\<close> with its own duration, so nothing is carried over.
\<close>

theorem sleep_semantics:
  assumes "compiles p" "body p = xs @ PROTO_SLEEP l t # r"
    and "switch_state fsub p (fst t0) (entry p t0 w0)
           = exec (end_line p) (length xs) (PROTO_SLEEP l t # r) w"
  shows "((\<forall>k\<le>length ts. 0 < foldl fsub (t (vars w)) (map fst (take k ts)))
            \<and> foldl fsub (t (vars w)) (map fst (ts @ [tz])) \<le> 0
          \<longrightarrow> tick_call fsub p t0 w0
                = (Returned False,
                   w\<lparr>ps := (ps w)\<lparr>time := t (vars w), yield := True, state := l\<rparr>\<rparr>)
            \<and> fst (calls fsub p (t0 # ts) w0)
                = (Returned False, trace w) # replicate (length ts) (Returned False, pre_events p)
            \<and> state (ps (snd (calls fsub p (t0 # ts) w0))) = l
            \<and> time (ps (snd (calls fsub p (t0 # ts) w0)))
                = foldl fsub (t (vars w)) (map fst ts)
            \<and> polls (snd (calls fsub p (t0 # ts) w0)) = polls w + length ts
            \<and> tick_call fsub p tz (snd (calls fsub p (t0 # ts) w0))
                = return_true (exec (end_line p) (Suc (length xs)) r
                    (elapse fsub (fst tz) (entry p tz (snd (calls fsub p (t0 # ts) w0)))))
            \<and> time (ps (elapse fsub (fst tz) (entry p tz (snd (calls fsub p (t0 # ts) w0)))))
                = foldl fsub (t (vars w)) (map fst (ts @ [tz])))
       \<and> foldl (-) (t (vars w)) (map fst (ts @ [tz]))
           = t (vars w) - sum_list (map fst (ts @ [tz]))
       \<and> exec e i (PROTO_SLEEP l' t' # r') (w'\<lparr>ps := (ps w')\<lparr>time := x\<rparr>\<rparr>)
           = exec e i (PROTO_SLEEP l' t' # r') w'"
proof (intro conjI impI)
  show "foldl (-) (t (vars w)) (map fst (ts @ [tz]))
           = t (vars w) - sum_list (map fst (ts @ [tz]))"
    by (rule foldl_minus)
  show "exec e i (PROTO_SLEEP l' t' # r') (w'\<lparr>ps := (ps w')\<lparr>time := x\<rparr>\<rparr>)
           = exec e i (PROTO_SLEEP l' t' # r') w'"
    by (rule sleep_overwrites)
  assume h: "(\<forall>k\<le>length ts. 0 < foldl fsub (t (vars w)) (map fst (take k ts)))
            \<and> foldl fsub (t (vars w)) (map fst (ts @ [tz])) \<le> 0"
  then have pos: "0 < t (vars w)" by fastforce
  have tc: "tick_call fsub p t0 w0
      = return_true (exec (end_line p) (length xs) (PROTO_SLEEP l t # r) w)"
    by (simp add: tick_call_eq assms(3))
  let ?w1 = "w\<lparr>ps := (ps w)\<lparr>time := t (vars w), yield := True, state := l\<rparr>\<rparr>"
  show first: "tick_call fsub p t0 w0 = (Returned False, ?w1)"
    using pos by (simp add: tc suspend_def Let_def)
  have after: "calls fsub p (t0 # us) w0
      = ((Returned False, trace w) # fst (calls fsub p us ?w1), snd (calls fsub p us ?w1))" for us
    by (simp add: first Let_def)
  have st: "state (ps ?w1) = l" and tm: "time (ps ?w1) = t (vars w)" and pl: "polls ?w1 = polls w"
    by simp_all
  have "\<forall>k\<le>length ts. 0 < foldl fsub (time (ps ?w1)) (map fst (take k ts))"
    using h by (simp only: tm) simp
  then have s: "fst (calls fsub p ts ?w1) = replicate (length ts) (Returned False, pre_events p)
         \<and> state (ps (snd (calls fsub p ts ?w1))) = l
         \<and> time (ps (snd (calls fsub p ts ?w1))) = foldl fsub (time (ps ?w1)) (map fst ts)
         \<and> polls (snd (calls fsub p ts ?w1)) = polls ?w1 + length ts"
    using sleep_suspended_calls [OF assms(1,2) st] by blast
  show "fst (calls fsub p (t0 # ts) w0)
      = (Returned False, trace w) # replicate (length ts) (Returned False, pre_events p)"
    using s by (simp add: after del: calls.simps)
  show "state (ps (snd (calls fsub p (t0 # ts) w0))) = l"
    using s by (simp add: after del: calls.simps)
  show tn: "time (ps (snd (calls fsub p (t0 # ts) w0))) = foldl fsub (t (vars w)) (map fst ts)"
    using s by (simp add: after del: calls.simps)
  show "polls (snd (calls fsub p (t0 # ts) w0)) = polls w + length ts"
    using s by (simp add: after del: calls.simps)
  have "\<not> 0 < fsub (time (ps (snd (calls fsub p ts ?w1)))) (fst tz)"
    using s h by simp
  then show "tick_call fsub p tz (snd (calls fsub p (t0 # ts) w0))
      = return_true (exec (end_line p) (Suc (length xs)) r
          (elapse fsub (fst tz) (entry p tz (snd (calls fsub p (t0 # ts) w0)))))"
    using sleep_tick [OF assms(1,2), of "snd (calls fsub p ts ?w1)" fsub tz] s
    by (simp add: after del: calls.simps)
  show "time (ps (elapse fsub (fst tz) (entry p tz (snd (calls fsub p (t0 # ts) w0)))))
      = foldl fsub (t (vars w)) (map fst (ts @ [tz]))"
    using tn by (simp add: ps_entry)
qed

text \<open>
  The function \<^verbatim>\<open>begin; sleep(5); end\<close> called from a fresh state. With exact
  subtraction and elapsed times \<open>2, 2, 4\<close> it suspends three times and ends with
  \<open>time = - 3\<close>. The function \<^verbatim>\<open>begin; sleep(2); end\<close> with a subtraction that rounds to
  whole numbers and elapsed times \<open>0.4, 1.2, 0.4, 0.6\<close>: the countdown is
  \<open>2, 1, 1, 0\<close>, so the sleep is still suspended after the third, where the running sum
  has reached the duration.
\<close>

theorem sleep_semantics_witness:
  "compiles sleep_example \<and> body sleep_example = [] @ PROTO_SLEEP 10 id # []
   \<and> switch_state (-) sleep_example (fst (0, id)) (entry sleep_example (0, id) (fresh 5))
       = exec (end_line sleep_example) (length []) (PROTO_SLEEP 10 id # [])
           (entry sleep_example (0, id) (fresh 5))
   \<and> fst (calls (-) sleep_example [(0, id), (2, id), (2, id), (4, id)] (fresh 5))
       = [(Returned False, []), (Returned False, []), (Returned False, []), (Returned True, [])]
   \<and> time (ps (snd (calls (-) sleep_example [(0, id), (2, id), (2, id)] (fresh 5)))) = 1
   \<and> time (ps (snd (calls (-) sleep_example [(0, id), (2, id), (2, id), (4, id)] (fresh 5)))) = - 3
   \<and> fst (calls round_sub sleep_example
             [(0, id), (2 / 5, id), (6 / 5, id), (2 / 5, id), (3 / 5, id)] (fresh 2))
       = [(Returned False, []), (Returned False, []), (Returned False, []), (Returned False, []),
          (Returned True, [])]
   \<and> time (ps (snd (calls round_sub sleep_example
             [(0, id), (2 / 5, id), (6 / 5, id), (2 / 5, id)] (fresh 2)))) = 1"
  using sleep_semantics [of sleep_example "[]" 10 id "[]" "(-)" "(0, id)" "fresh 5"
      "entry sleep_example (0, id) (fresh 5)" "[(2, id), (2, id)]" "(4, id)"]
    sleep_semantics [of sleep_example "[]" 10 id "[]" round_sub "(0, id)" "fresh 2"
      "entry sleep_example (0, id) (fresh 2)" "[(2 / 5, id), (6 / 5, id), (2 / 5, id)]" "(3 / 5, id)"]
  by (simp add: sleep_example_def round_sub_def round_def run_defs)

text \<open>
  The claim C4 as the spec words it says that the accumulator ends as the surplus. With
  duration \<open>5\<close> and elapsed times \<open>2, 2, 4\<close>, all of which floats hold exactly, the
  surplus is \<open>3\<close>, and \<open>time\<close> ends as \<open>- 3\<close>.
\<close>

theorem sleep_surplus_counterexample:
  "map fst (fst (calls (-) sleep_example [(0, id), (2, id), (2, id), (4, id)] (fresh 5)))
     = [Returned False, Returned False, Returned False, Returned True]
   \<and> time (ps (snd (calls (-) sleep_example [(0, id), (2, id), (2, id), (4, id)] (fresh 5))))
       \<noteq> (2 + 2 + 4) - 5"
  by (simp add: sleep_example_def run_defs)

text \<open>
  Claim C10. A call that reaches \<^verbatim>\<open>PROTO_SLEEP(t)\<close> with \<open>t \<le> 0\<close> does not suspend
  there: it goes on with the statements after the sleep, and the rest of the call does
  not ask the timer.
\<close>

theorem non_positive_sleep:
  assumes "t (vars w) \<le> 0"
  shows "exec e i (PROTO_SLEEP l t # r) w
           = exec e (Suc i) r (w\<lparr>ps := (ps w)\<lparr>time := t (vars w)\<rparr>\<rparr>)
         \<and> polls (snd (exec e i (PROTO_SLEEP l t # r) w)) = polls w"
  using assms by (simp add: polls_exec Let_def)

theorem non_positive_sleep_witness:
  "id (vars (fresh (- 1 :: real))) \<le> 0
   \<and> exec 11 0 [PROTO_SLEEP 10 id] (fresh (- 1)) = (Running, (fresh (- 1))\<lparr>ps := \<lparr>state = 11, time = - 1, yield = False\<rparr>\<rparr>)
   \<and> polls (snd (exec 11 0 [PROTO_SLEEP 10 id] (fresh (- 1 :: real)))) = 0"
  using non_positive_sleep [of id "fresh (- 1 :: real)" 11 0 10 "[]"]
  by (simp add: run_defs)

section \<open>Termination\<close>

text \<open>
  Claim C2. After a call of a function that compiles has returned \<open>true\<close>, every later
  call (with \<open>ps->state\<close> left alone) returns \<open>true\<close>, runs only the code before
  \<^verbatim>\<open>PROTO_BEGIN\<close> and no statement of the body, leaves \<open>time\<close> and \<open>state\<close> as they
  are and does not ask the timer.
\<close>

theorem idempotent_termination:
  assumes "compiles p" "fst (call fsub p dt w) = Returned True"
  shows "fst (calls fsub p ts (snd (call fsub p dt w))) = replicate (length ts) (Returned True, pre_events p)
       \<and> time (ps (snd (calls fsub p ts (snd (call fsub p dt w))))) = time (ps (snd (call fsub p dt w)))
       \<and> state (ps (snd (calls fsub p ts (snd (call fsub p dt w))))) = state (ps (snd (call fsub p dt w)))
       \<and> polls (snd (calls fsub p ts (snd (call fsub p dt w)))) = polls (snd (call fsub p dt w))"
  using terminal_calls [of "snd (call fsub p dt w)" p fsub ts] call_True_terminal [OF assms]
  by blast

theorem idempotent_termination_witness:
  "compiles yield_example \<and> fst (call (-) yield_example 1 yielded) = Returned True
   \<and> fst (calls (-) yield_example [(1, id), (1, id)] (snd (call (-) yield_example 1 yielded)))
        = [(Returned True, [EPre 0]), (Returned True, [EPre 0])]
   \<and> time (ps (snd (calls (-) yield_example [(1, id), (1, id)] (snd (call (-) yield_example 1 yielded))))) = 7"
  using idempotent_termination [of yield_example "(-)" 1 yielded "[(1, id), (1, id)]"]
  by (simp add: yield_example_def yielded_def run_defs)

section \<open>Bodies of plain yields\<close>



lemma expected_nonempty: "expected pe tr i r \<noteq> []"
  by (induction pe tr i r rule: expected.induct) simp_all








section \<open>Threads and their memory\<close>

lemma ProtoThread_new_null:
  "ProtoThread_new f None n h
     = Inr (\<lparr>thread_function = f, thread_state = ProtoState_init, thread_vars = None\<rparr>, h)"
  by (simp add: ProtoThread_new_def)

lemma ProtoThread_new_copy:
  assumes "src < length h" "n \<le> length (h ! src)"
  shows "ProtoThread_new f (Some src) n h
     = Inr (\<lparr>thread_function = f, thread_state = ProtoState_init, thread_vars = Some (length h)\<rparr>,
            h @ [take n (h ! src)])"
  using assms by (simp add: ProtoThread_new_def new_chars_def memcpy_def nth_append)









section \<open>Resuming\<close>




section \<open>Instances\<close>

text \<open>
  Claim C9. Constructed with a null pointer, whatever the size, a thread has a null
  \<^verbatim>\<open>vars\<close> and memory is left as it was: no block is allocated, and driving the
  thread leaves memory as it was too. Constructed with a
  pointer to a block that holds at least \<open>var_size\<close> bytes, it gets a new block of
  exactly \<open>var_size\<close> bytes, which are the first \<open>var_size\<close> bytes of the caller's.
\<close>

theorem construction:
  "ProtoThread_new f None n h
     = Inr (\<lparr>thread_function = f, thread_state = ProtoState_init, thread_vars = None\<rparr>, h)
   \<and> snd (snd (drive fsub dt
         \<lparr>thread_function = f, thread_state = ProtoState_init, thread_vars = None\<rparr> h)) = h
   \<and> (src < length h \<and> n \<le> length (h ! src) \<longrightarrow>
        ProtoThread_new f (Some src) n h
          = Inr (\<lparr>thread_function = f, thread_state = ProtoState_init,
                   thread_vars = Some (length h)\<rparr>,
                 h @ [take n (h ! src)])
        \<and> length (take n (h ! src)) = n)"
  by (simp add: ProtoThread_new_null ProtoThread_new_copy drive_def Let_def)

theorem construction_witness:
  "(0::nat) < length [[1, 2, 3, 4 :: byte]] \<and> (4::nat) \<le> length ([[1, 2, 3, 4 :: byte]] ! 0)
   \<and> ProtoThread_new bump None 4 [[1, 2, 3, 4]]
       = Inr (\<lparr>thread_function = bump, thread_state = ProtoState_init, thread_vars = None\<rparr>,
              [[1, 2, 3, 4]])
   \<and> ProtoThread_new bump (Some 0) 4 [[1, 2, 3, 4]]
       = Inr (\<lparr>thread_function = bump, thread_state = ProtoState_init, thread_vars = Some 1\<rparr>,
              [[1, 2, 3, 4], [1, 2, 3, 4]])"
  using construction [of bump 4 "[[1, 2, 3, 4]]" "(-)" 0 0]
  by simp




end
